theory Spec2Isabelle
  imports
    Main
    "HOL-Library.Multiset"
    "HOL-Library.Char_ord"
    "HOL-Library.List_Lexorder"
    "HOL-Library.Product_Lexorder"
begin

section \<open>Text: characters, lower-casing, word tokens\<close>

text \<open>
  A Python \<open>str\<close> is modelled as a \<^typ>\<open>string\<close> whose characters are read as the code
  points U+0000 .. U+00FF (Latin-1). On that range \<open>str.lower\<close> maps one character to one
  character, and the class \<open>\w\<close> of a \<open>str\<close> pattern is \<open>str.isalnum\<close> or the underscore.
  Code points above U+00FF are outside the model.
\<close>

definition isalnum :: "char \<Rightarrow> bool" where
  "isalnum c =
     (let n = (of_char c :: nat) in
        (48 \<le> n \<and> n \<le> 57) \<or> (65 \<le> n \<and> n \<le> 90) \<or> (97 \<le> n \<and> n \<le> 122)
        \<or> n = 170 \<or> n = 178 \<or> n = 179 \<or> n = 181 \<or> n = 185 \<or> n = 186
        \<or> (188 \<le> n \<and> n \<le> 190)
        \<or> (192 \<le> n \<and> n \<le> 214) \<or> (216 \<le> n \<and> n \<le> 246) \<or> (248 \<le> n \<and> n \<le> 255))"

definition is_word :: "char \<Rightarrow> bool" where
  "is_word c = (isalnum c \<or> c = CHR ''_'')"

definition lower_chr :: "char \<Rightarrow> char" where
  "lower_chr c =
     (let n = (of_char c :: nat) in
        if (65 \<le> n \<and> n \<le> 90) \<or> (192 \<le> n \<and> n \<le> 222 \<and> n \<noteq> 215)
        then char_of (n + 32) else c)"

definition lower :: "string \<Rightarrow> string" where
  "lower s = map lower_chr s"

text \<open>
  \<open>re.findall(r'\b\w+\b', s)\<close>: a match can only start where a word character follows a
  non-word character (or the start), \<open>\w+\<close> is greedy, and the closing \<open>\b\<close> holds exactly
  at the end of the run. The matches are therefore the maximal runs of word characters,
  left to right. \<open>cur\<close> is the run being read.
\<close>

fun scan_words :: "string \<Rightarrow> string \<Rightarrow> string list" where
  "scan_words cur [] = (if cur = [] then [] else [cur])"
| "scan_words cur (c # cs) =
     (if is_word c then scan_words (cur @ [c]) cs
      else (if cur = [] then [] else [cur]) @ scan_words [] cs)"

definition findall_words :: "string \<Rightarrow> string list" where
  "findall_words s = scan_words [] s"

section \<open>Python values\<close>

text \<open>
  The values \<open>response.json()\<close> can produce. \<open>True\<close> and \<open>False\<close> are the integers 1 and 0
  (in Python \<open>bool\<close> is a subclass of \<open>int\<close>, and nothing below tells them apart); floats
  are outside the model. A \<open>PDict\<close> lists its items in insertion order, keys distinct.
\<close>

datatype pyval =
    PNone
  | PInt int
  | PStr string
  | PList "pyval list"
  | PDict "(string \<times> pyval) list"

section \<open>Financial keywords\<close>

definition FINANCE_KEYWORDS :: "string list" where
  "FINANCE_KEYWORDS =
    [''hdfc'', ''hdfc bank'', ''hdfc securities'', ''hdfc credit card'',
     ''bank'', ''banking'', ''deposits'', ''lending'', ''nbfc'', ''branch'', ''retail banking'',
     ''wholesale banking'', ''credit'', ''loan'', ''interest rate'', ''fixed deposit'',
     ''stock'', ''share'', ''equity'', ''nse'', ''bse'', ''ipo'', ''dividend'', ''valuation'',
     ''market cap'', ''investor'', ''investment'', ''mutual fund'', ''portfolio'',
     ''profit'', ''revenue'', ''earnings'', ''net income'', ''quarterly results'',
     ''q1 results'', ''q2 results'', ''q3 results'', ''q4 results'', ''financial year'',
     ''rbi'', ''reserve bank of india'', ''monetary policy'', ''repo rate'',
     ''liquidity'', ''npas'', ''non performing asset'', ''asset quality'',
     ''crr'', ''slr'', ''basel norms'', ''regulatory'', ''merger'', ''acquisition'']"

text \<open>
  \<open>KEYWORD_PATTERN\<close> is the alternation of the escaped keywords, compiled with
  \<open>re.IGNORECASE\<close>. A literal of the pattern matches a character of the text when both
  have the same lower case. \<open>search\<close> tries every start position from the left; only
  whether a match exists is used.
\<close>

fun match_literal :: "string \<Rightarrow> string \<Rightarrow> bool" where
  "match_literal [] s = True"
| "match_literal (p # ps) [] = False"
| "match_literal (p # ps) (c # cs) = (lower_chr c = lower_chr p \<and> match_literal ps cs)"

definition match_alternation :: "string list \<Rightarrow> string \<Rightarrow> bool" where
  "match_alternation ks s = list_ex (\<lambda>k. match_literal k s) ks"

fun search :: "string list \<Rightarrow> string \<Rightarrow> bool" where
  "search ks [] = match_alternation ks []"
| "search ks (c # cs) = (match_alternation ks (c # cs) \<or> search ks cs)"

definition KEYWORD_PATTERN_search :: "string \<Rightarrow> bool" where
  "KEYWORD_PATTERN_search s = search FINANCE_KEYWORDS s"

section \<open>Relevance scoring\<close>

text \<open>\<open>Counter(words)\<close> and \<open>dict.get(key, default)\<close>.\<close>

definition Counter :: "string list \<Rightarrow> (string \<rightharpoonup> int)" where
  "Counter ws =
     foldl (\<lambda>m w. m(w \<mapsto> (case m w of None \<Rightarrow> 0 | Some n \<Rightarrow> n) + 1)) Map.empty ws"

definition dict_get :: "('k \<rightharpoonup> 'v) \<Rightarrow> 'k \<Rightarrow> 'v \<Rightarrow> 'v" where
  "dict_get m k d = (case m k of None \<Rightarrow> d | Some v \<Rightarrow> v)"

fun compute_relevance :: "pyval \<Rightarrow> int" where
  "compute_relevance (PStr text) =
     (let words = findall_words (lower text);
          counts = Counter words
      in sum_list (map (\<lambda>k. dict_get counts (lower k) 0) FINANCE_KEYWORDS))"
| "compute_relevance _ = 0"

section \<open>The article fetcher\<close>

text \<open>
  A normalized article record. The five fields copied from the provider hold whatever
  \<open>a.get(...)\<close> returned (\<open>PNone\<close> when the key is absent); \<open>category\<close> is unset until
  the orchestrator tags the record.
\<close>

record article =
  date :: pyval
  title :: pyval
  url :: pyval
  domain :: pyval
  language :: pyval
  source_country :: pyval
  relevance_score :: int
  category :: "string option"

datatype exn = RequestException | JSONDecodeError | TypeError | KeyError | AttributeError

text \<open>
  What one \<open>requests.get\<close> call gives: an exception of the transport, or a response with
  its \<open>status_code\<close> and the value of \<open>response.json()\<close> (\<open>None\<close> when the body is not
  JSON and \<open>json()\<close> raises). The provider is a function of the query and the window.
\<close>

datatype http_outcome = Failed | Response int "pyval option"

type_synonym provider = "string \<Rightarrow> int \<Rightarrow> int \<Rightarrow> http_outcome"

text \<open>Truth value of an object (\<open>not title\<close>).\<close>

fun truthy :: "pyval \<Rightarrow> bool" where
  "truthy PNone = False"
| "truthy (PInt n) = (n \<noteq> 0)"
| "truthy (PStr s) = (s \<noteq> [])"
| "truthy (PList xs) = (xs \<noteq> [])"
| "truthy (PDict kvs) = (kvs \<noteq> [])"

fun str_contains :: "string \<Rightarrow> string \<Rightarrow> bool" where
  "str_contains k [] = (k = [])"
| "str_contains k (c # cs) = (take (length k) (c # cs) = k \<or> str_contains k cs)"

text \<open>\<open>key in data\<close>: a key of a dict, an element of a list, a substring of a str;
  \<open>TypeError\<close> on \<open>None\<close> and on an int.\<close>

fun py_contains :: "pyval \<Rightarrow> string \<Rightarrow> exn + bool" where
  "py_contains (PDict kvs) k = Inr (k \<in> set (map fst kvs))"
| "py_contains (PList xs) k = Inr (PStr k \<in> set xs)"
| "py_contains (PStr s) k = Inr (str_contains k s)"
| "py_contains PNone k = Inl TypeError"
| "py_contains (PInt n) k = Inl TypeError"

text \<open>\<open>data[key]\<close> with a str key: only a dict can be indexed so.\<close>

fun py_getitem :: "pyval \<Rightarrow> string \<Rightarrow> exn + pyval" where
  "py_getitem (PDict kvs) k = (case map_of kvs k of None \<Rightarrow> Inl KeyError | Some v \<Rightarrow> Inr v)"
| "py_getitem _ k = Inl TypeError"

text \<open>\<open>for a in v\<close>: the elements of a list, the keys of a dict, the characters of a str.\<close>

fun py_iter :: "pyval \<Rightarrow> exn + pyval list" where
  "py_iter (PList xs) = Inr xs"
| "py_iter (PDict kvs) = Inr (map (\<lambda>kv. PStr (fst kv)) kvs)"
| "py_iter (PStr s) = Inr (map (\<lambda>c. PStr [c]) s)"
| "py_iter PNone = Inl TypeError"
| "py_iter (PInt n) = Inl TypeError"

text \<open>\<open>a.get(key, default)\<close>: only a dict has the method.\<close>

fun py_get :: "pyval \<Rightarrow> string \<Rightarrow> pyval \<Rightarrow> exn + pyval" where
  "py_get (PDict kvs) k d = Inr (case map_of kvs k of None \<Rightarrow> d | Some v \<Rightarrow> v)"
| "py_get _ k d = Inl AttributeError"

text \<open>\<open>KEYWORD_PATTERN.search(title)\<close>: \<open>TypeError\<close> unless the title is a str.\<close>

fun pattern_search :: "pyval \<Rightarrow> exn + bool" where
  "pattern_search (PStr s) = Inr (KEYWORD_PATTERN_search s)"
| "pattern_search _ = Inl TypeError"

text \<open>
  The body of the loop over \<open>data["articles"]\<close> for one element \<open>a\<close>: an exception, or
  \<open>None\<close> for \<open>continue\<close>, or the record to append. The later \<open>a.get\<close> calls cannot
  raise, since the first one has succeeded.
\<close>

definition field :: "pyval \<Rightarrow> string \<Rightarrow> pyval" where
  "field a k = (case py_get a k PNone of Inl e \<Rightarrow> PNone | Inr v \<Rightarrow> v)"

definition article_of :: "pyval \<Rightarrow> exn + article option" where
  "article_of a =
     (case py_get a ''title'' (PStr []) of
        Inl e \<Rightarrow> Inl e
      | Inr t \<Rightarrow>
          if \<not> truthy t then Inr None
          else (case pattern_search t of
                  Inl e \<Rightarrow> Inl e
                | Inr found \<Rightarrow>
                    if \<not> found then Inr None
                    else (let score = compute_relevance t in
                          if score = 0 then Inr None
                          else Inr (Some \<lparr>date = field a ''seendate'',
                                          title = t,
                                          url = field a ''url'',
                                          domain = field a ''domain'',
                                          language = field a ''language'',
                                          source_country = field a ''sourcecountry'',
                                          relevance_score = score,
                                          category = None\<rparr>))))"

fun collect :: "pyval list \<Rightarrow> article list \<Rightarrow> exn + article list" where
  "collect [] articles = Inr articles"
| "collect (a # rest) articles =
     (case article_of a of
        Inl e \<Rightarrow> Inl e
      | Inr None \<Rightarrow> collect rest articles
      | Inr (Some r) \<Rightarrow> collect rest (articles @ [r]))"

text \<open>
  The \<open>try\<close> block of \<open>fetch_news_from_gdelt\<close>, and the function with its handler.
  The \<open>print\<close> calls of the program are left out: writing to the console is assumed to
  succeed. (A \<open>print\<close> that raised inside the \<open>except\<close> handler would leave the function
  by that exception; the console is not part of the model.)
\<close>

definition fetch_try :: "http_outcome \<Rightarrow> exn + article list" where
  "fetch_try r =
     (case r of
        Failed \<Rightarrow> Inl RequestException
      | Response status_code body \<Rightarrow>
          if status_code \<noteq> 200 then Inr []
          else (case body of
                  None \<Rightarrow> Inl JSONDecodeError
                | Some data \<Rightarrow>
                    (case py_contains data ''articles'' of
                       Inl e \<Rightarrow> Inl e
                     | Inr present \<Rightarrow>
                         if \<not> present then Inr []
                         else (case py_getitem data ''articles'' of
                                 Inl e \<Rightarrow> Inl e
                               | Inr v \<Rightarrow>
                                   (case py_iter v of
                                      Inl e \<Rightarrow> Inl e
                                    | Inr items \<Rightarrow> collect items [])))))"

definition fetch_news_from_gdelt :: "provider \<Rightarrow> string \<Rightarrow> int \<Rightarrow> int \<Rightarrow> article list" where
  "fetch_news_from_gdelt get query start_date end_date =
     (case fetch_try (get query start_date end_date) of
        Inl e \<Rightarrow> []
      | Inr articles \<Rightarrow> articles)"

section \<open>The day loop\<close>

text \<open>A \<open>datetime.date\<close> is its proleptic Gregorian ordinal (\<open>date.toordinal\<close>); adding
  \<open>timedelta(days=1)\<close> adds one, and dates compare as their ordinals.\<close>

definition is_leap :: "int \<Rightarrow> bool" where
  "is_leap y = (y mod 4 = 0 \<and> (y mod 100 \<noteq> 0 \<or> y mod 400 = 0))"

definition days_before_year :: "int \<Rightarrow> int" where
  "days_before_year y = (y - 1) * 365 + (y - 1) div 4 - (y - 1) div 100 + (y - 1) div 400"

definition days_before_month :: "int \<Rightarrow> nat \<Rightarrow> int" where
  "days_before_month y m =
     [0, 31, 59, 90, 120, 151, 181, 212, 243, 273, 304, 334] ! (m - 1)
       + (if 2 < m \<and> is_leap y then 1 else 0)"

definition toordinal :: "int \<Rightarrow> nat \<Rightarrow> int \<Rightarrow> int" where
  "toordinal y m d = days_before_year y + days_before_month y m + d"

definition START_DATE :: int where
  "START_DATE = toordinal 2023 4 28"

definition END_DATE :: int where
  "END_DATE = toordinal 2025 10 28"

definition COMPANY_QUERY :: string where
  "COMPANY_QUERY = ''(\"HDFC Bank\" OR \"HDFC Bank Ltd\" OR \"HDFC Bank Limited\" ''
     @ ''OR \"HDFC Bank results\" OR \"HDFC Bank profit\" OR \"HDFC Bank shares\" ''
     @ ''OR \"HDFC Bank stock\" OR \"HDFC Bank RBI\" OR \"HDFC Bank loans\" ''
     @ ''OR \"HDFC Bank financial services\")''"

definition SECTOR_QUERY :: string where
  "SECTOR_QUERY = ''(\"Indian banking sector\" OR \"Indian banks\" OR \"Reserve Bank of India\" ''
     @ ''OR \"RBI Bank of India\" OR \"State Bank of India\" OR \"SBI Bank\" ''
     @ ''OR \"ICICI Bank\" OR \"Axis Bank\" OR \"Kotak Mahindra Bank\" ''
     @ ''OR \"Yes Bank\" OR \"Bank of Baroda\" OR \"Punjab National Bank\")''"

text \<open>
  \<open>sorted(xs, key=k, reverse=True)\<close>: CPython reverses the list, sorts it with its stable
  sort, and reverses the result, so that equal keys keep their order.
\<close>

definition sorted_reverse :: "('a \<Rightarrow> int) \<Rightarrow> 'a list \<Rightarrow> 'a list" where
  "sorted_reverse k xs = rev (sort_key k (rev xs))"

definition tag :: "string \<Rightarrow> article list \<Rightarrow> article list" where
  "tag c xs = map (\<lambda>a. a\<lparr>category := Some c\<rparr>) xs"

definition company_articles :: "provider \<Rightarrow> int \<Rightarrow> article list" where
  "company_articles get current_date =
     take 15 (sorted_reverse relevance_score
       (tag ''company'' (fetch_news_from_gdelt get COMPANY_QUERY current_date (current_date + 1))))"

definition sector_articles :: "provider \<Rightarrow> int \<Rightarrow> article list" where
  "sector_articles get current_date =
     take 30 (sorted_reverse relevance_score
       (tag ''sector'' (fetch_news_from_gdelt get SECTOR_QUERY current_date (current_date + 1))))"

record state =
  all_articles :: "article list"
  total_company :: nat
  total_sector :: nat

definition init_state :: state where
  "init_state = \<lparr>all_articles = [], total_company = 0, total_sector = 0\<rparr>"

definition day_step :: "provider \<Rightarrow> int \<Rightarrow> state \<Rightarrow> state" where
  "day_step get current_date st =
     (let company = company_articles get current_date;
          sector = sector_articles get current_date
      in \<lparr>all_articles = all_articles st @ (company @ sector),
          total_company = total_company st + length company,
          total_sector = total_sector st + length sector\<rparr>)"

function main_loop :: "provider \<Rightarrow> int \<Rightarrow> state \<Rightarrow> state" where
  "main_loop get current_date st =
     (if current_date \<le> END_DATE
      then main_loop get (current_date + 1) (day_step get current_date st)
      else st)"
  by pat_completeness auto
termination
  by (relation "measure (\<lambda>(get, current_date, st). nat (END_DATE + 1 - current_date))") auto

declare main_loop.simps [simp del]

section \<open>Writing the result\<close>

text \<open>
  \<open>df.drop_duplicates(subset=["title", "url"])\<close> keeps a row unless an earlier row has the
  same title and url (\<open>keep='first'\<close>, the default); a missing value equals a missing value.
\<close>

definition subset_key :: "article \<Rightarrow> pyval \<times> pyval" where
  "subset_key a = (title a, url a)"

fun keep_first :: "'k list \<Rightarrow> ('a \<Rightarrow> 'k) \<Rightarrow> 'a list \<Rightarrow> 'a list" where
  "keep_first seen key [] = []"
| "keep_first seen key (x # xs) =
     (if key x \<in> set seen then keep_first seen key xs
      else x # keep_first (key x # seen) key xs)"

definition drop_duplicates :: "article list \<Rightarrow> article list" where
  "drop_duplicates df = keep_first [] subset_key df"

text \<open>
  \<open>df.sort_values(by="date")\<close>: ascending by Python's \<open>str\<close> comparison (code points,
  lexicographic), missing values last. The order pandas gives rows of equal date is not
  determined by its default sort; the model keeps them in frame order.
\<close>

definition date_le :: "pyval \<Rightarrow> pyval \<Rightarrow> bool" where
  "date_le x y =
     (case y of
        PStr b \<Rightarrow> (case x of PStr a \<Rightarrow> a \<le> b | _ \<Rightarrow> False)
      | _ \<Rightarrow> True)"

definition date_key :: "article \<Rightarrow> bool \<times> string" where
  "date_key a = (case date a of PStr s \<Rightarrow> (False, s) | _ \<Rightarrow> (True, []))"

definition sort_values :: "article list \<Rightarrow> article list" where
  "sort_values df = sort_key date_key df"

text \<open>
  The frame is modelled when every title, url and date is a str or missing. On any other
  frame pandas compares or hashes arbitrary objects, and the model answers \<open>Unmodelled\<close>.
\<close>

fun is_text :: "pyval \<Rightarrow> bool" where
  "is_text PNone = True"
| "is_text (PStr s) = True"
| "is_text _ = False"

definition text_frame :: "article list \<Rightarrow> bool" where
  "text_frame df = list_all (\<lambda>a. is_text (title a) \<and> is_text (url a) \<and> is_text (date a)) df"

text \<open>
  How \<open>main\<close> ends: \<open>NoArticles\<close> prints the message and returns without writing;
  \<open>Saved rows n c s\<close> writes \<open>rows\<close> to the file and prints the totals \<open>n\<close> (saved), \<open>c\<close>
  (company) and \<open>s\<close> (sector).
\<close>

datatype outcome = NoArticles | Saved "article list" nat nat nat | Unmodelled

fun written :: "outcome \<Rightarrow> article list option" where
  "written (Saved rows n c s) = Some rows"
| "written _ = None"

definition main_tail :: "state \<Rightarrow> outcome" where
  "main_tail st =
     (if all_articles st = [] then NoArticles
      else if \<not> text_frame (all_articles st) then Unmodelled
      else (let df = sort_values (drop_duplicates (all_articles st))
            in Saved df (length df) (total_company st) (total_sector st)))"

text \<open>\<open>main\<close>, and \<open>main\<close> with the first day as a parameter.\<close>

definition main_from :: "provider \<Rightarrow> int \<Rightarrow> outcome" where
  "main_from get first_day = main_tail (main_loop get first_day init_state)"

definition main :: "provider \<Rightarrow> outcome" where
  "main get = main_from get START_DATE"

section \<open>Statements about one day's selection\<close>

text \<open>
  \<open>top_ranked n c fetched kept\<close>: \<open>kept\<close> holds at most \<open>n\<close> records, as many as the fetch
  allows, all tagged \<open>c\<close>, in descending score order; no record of the fetch that was left
  out scores higher than a record kept; and among records of one score the ones kept are
  the first of the fetch, in the order of the fetch.
\<close>

definition top_ranked :: "nat \<Rightarrow> string \<Rightarrow> article list \<Rightarrow> article list \<Rightarrow> bool" where
  "top_ranked n c fetched kept =
     (length kept \<le> n \<and> length kept = min n (length fetched)
      \<and> (\<forall>a\<in>set kept. category a = Some c)
      \<and> sorted_wrt (\<lambda>a b. relevance_score b \<le> relevance_score a) kept
      \<and> (\<exists>rest. mset (kept @ rest) = mset (tag c fetched)
            \<and> (\<forall>a\<in>set kept. \<forall>b\<in>set rest. relevance_score b \<le> relevance_score a))
      \<and> (\<forall>v. \<exists>later. filter (\<lambda>a. relevance_score a = v) (tag c fetched)
                          = filter (\<lambda>a. relevance_score a = v) kept @ later))"

text \<open>\<open>from_fetch get a\<close>: the record \<open>a\<close> is a record some fetch returned, changed
  in its category tag only.\<close>

definition from_fetch :: "provider \<Rightarrow> article \<Rightarrow> bool" where
  "from_fetch get a =
     (\<exists>q d c. \<exists>b\<in>set (fetch_news_from_gdelt get q d (d + 1)). a = b\<lparr>category := Some c\<rparr>)"

section \<open>Example data\<close>

definition example_item :: "string \<Rightarrow> string \<Rightarrow> string \<Rightarrow> pyval" where
  "example_item t u d = PDict [(''title'', PStr t), (''url'', PStr u), (''seendate'', PStr d)]"

definition example_record :: "string \<Rightarrow> string \<Rightarrow> string \<Rightarrow> int \<Rightarrow> string option \<Rightarrow> article" where
  "example_record t u d n c =
     \<lparr>date = PStr d, title = PStr t, url = PStr u, domain = PNone, language = PNone,
      source_country = PNone, relevance_score = n, category = c\<rparr>"

text \<open>A provider that answers the company query with four articles (two of them with the
  same title and url, one whose title is only a multi-word keyword) and the sector query
  with HTTP 500.\<close>

definition example_provider :: provider where
  "example_provider query start_date end_date =
     (if query = COMPANY_QUERY
      then Response 200 (Some (PDict [(''articles'', PList
             [example_item ''bank'' ''u1'' ''20251028T9'',
              example_item ''bank bank'' ''u2'' ''20251028T10'',
              example_item ''market cap'' ''u3'' ''20251028T11'',
              example_item ''bank'' ''u1'' ''20251028T12''])]))
      else Response 500 None)"

text \<open>A provider whose company call gets HTTP 500 and whose sector call fails in the
  transport; one whose articles carry a number as title; one whose document has no
  \<open>articles\<close> field.\<close>

definition failing_provider :: provider where
  "failing_provider query start_date end_date =
     (if query = COMPANY_QUERY then Response 500 None else Failed)"




text \<open>An accumulator holding two records with the same title and url and different
  scores, and dates whose string order is not their numeric order.\<close>

definition example_state :: state where
  "example_state =
     \<lparr>all_articles =
        [example_record ''bank'' ''u1'' ''20251028T9'' 1 (Some ''company''),
         example_record ''bank bank'' ''u2'' ''20251028T10'' 2 (Some ''company''),
         example_record ''bank'' ''u1'' ''20251028T11'' 7 (Some ''sector'')],
      total_company = 2, total_sector = 1\<rparr>"

section \<open>Auxiliary facts\<close>

lemma counter_foldl:
  "dict_get (foldl (\<lambda>m w. m(w \<mapsto> (case m w of None \<Rightarrow> 0 | Some n \<Rightarrow> n) + 1)) m ws) k 0
     = dict_get m k 0 + int (count_list ws k)"
  by (induction ws arbitrary: m) (auto simp: dict_get_def split: option.splits)

lemma counter_get: "dict_get (Counter ws) k 0 = int (count_list ws k)"
  by (simp add: Counter_def counter_foldl) (simp add: dict_get_def)

lemma scan_words_chars:
  "t \<in> set (scan_words cur s) \<Longrightarrow> \<forall>c\<in>set cur. is_word c \<Longrightarrow> \<forall>c\<in>set t. is_word c"
  by (induction cur s rule: scan_words.induct) (auto split: if_splits)

lemma scan_words_infix:
  "t \<in> set (scan_words cur s) \<Longrightarrow> \<exists>pre suf. cur @ s = pre @ t @ suf"
proof (induction cur s rule: scan_words.induct)
  case (1 cur)
  then show ?case by (auto split: if_splits intro: exI[of _ "[]"])
next
  case (2 cur c cs)
  show ?case
  proof (cases "is_word c")
    case True
    with 2 show ?thesis by auto
  next
    case False
    with 2 have "t = cur \<or> t \<in> set (scan_words [] cs)" by (auto split: if_splits)
    then show ?thesis
    proof
      assume "t = cur"
      then have "cur @ c # cs = [] @ t @ (c # cs)" by simp
      then show ?thesis by blast
    next
      assume "t \<in> set (scan_words [] cs)"
      with 2 False obtain pre suf where "cs = pre @ t @ suf" by auto
      then have "cur @ c # cs = (cur @ c # pre) @ t @ suf" by simp
      then show ?thesis by blast
    qed
  qed
qed

lemma scan_words_nonempty: "t \<in> set (scan_words cur s) \<Longrightarrow> t \<noteq> []"
  by (induction cur s rule: scan_words.induct) (auto split: if_splits)

lemma keywords_lower: "\<forall>k\<in>set FINANCE_KEYWORDS. lower k = k"
  by (simp add: FINANCE_KEYWORDS_def lower_def lower_chr_def)

lemma space_not_word: "\<not> is_word CHR '' ''"
  by (simp add: is_word_def isalnum_def)

lemma findall_words_chars: "t \<in> set (findall_words s) \<Longrightarrow> c \<in> set t \<Longrightarrow> is_word c"
  unfolding findall_words_def using scan_words_chars[of t "[]" s] by simp

lemma findall_words_infix: "t \<in> set (findall_words s) \<Longrightarrow> \<exists>pre suf. s = pre @ t @ suf"
  unfolding findall_words_def using scan_words_infix[of t "[]" s] by simp

lemma count_spaced_token: "CHR '' '' \<in> set k \<Longrightarrow> count_list (findall_words s) k = 0"
  using findall_words_chars[of k s "CHR '' ''"] space_not_word
  by (auto simp: count_list_0_iff)

lemma compute_relevance_sum:
  "compute_relevance (PStr t) =
     (\<Sum>k\<leftarrow>FINANCE_KEYWORDS. int (count_list (findall_words (lower t)) (lower k)))"
  by (simp add: counter_get)

lemma sum_list_filter_zero:
  "(\<And>x. x \<in> set xs \<Longrightarrow> \<not> P x \<Longrightarrow> f x = (0::int)) \<Longrightarrow>
     sum_list (map f xs) = sum_list (map f (filter P xs))"
  by (induction xs) auto

lemma compute_relevance_nonneg: "0 \<le> compute_relevance v"
  by (cases v) (auto simp: counter_get intro!: sum_list_nonneg)

lemma match_literal_prefix:
  "map lower_chr s = map lower_chr k @ suf \<Longrightarrow> match_literal k s"
  by (induction k s arbitrary: suf rule: match_literal.induct) auto

lemma search_infix:
  "k \<in> set ks \<Longrightarrow> map lower_chr s = pre @ map lower_chr k @ suf \<Longrightarrow> search ks s"
proof (induction pre arbitrary: s)
  case Nil
  then have "match_literal k s" using match_literal_prefix[of s k suf] by simp
  with Nil(1) have "match_alternation ks s" by (auto simp: match_alternation_def list_ex_iff)
  then show ?case by (cases s) auto
next
  case (Cons p pre)
  then obtain c cs where s: "s = c # cs" by (cases s) auto
  with Cons.prems have "map lower_chr cs = pre @ map lower_chr k @ suf" by simp
  with Cons.IH[OF Cons.prems(1)] have "search ks cs" by blast
  with s show ?case by simp
qed

lemma sum_list_pos_ex:
  "(1::int) \<le> sum_list (map f xs) \<Longrightarrow> \<forall>x\<in>set xs. 0 \<le> f x \<Longrightarrow> \<exists>x\<in>set xs. 1 \<le> f x"
proof (induction xs)
  case Nil then show ?case by simp
next
  case (Cons x xs)
  show ?case
  proof (cases "1 \<le> f x")
    case True then show ?thesis by simp
  next
    case False
    with Cons.prems have "f x = 0" by simp
    with Cons show ?thesis by simp
  qed
qed

lemma scored_implies_search:
  assumes "1 \<le> compute_relevance (PStr t)"
  shows "KEYWORD_PATTERN_search t"
proof -
  let ?ws = "findall_words (lower t)"
  from assms have "1 \<le> (\<Sum>k\<leftarrow>FINANCE_KEYWORDS. int (count_list ?ws (lower k)))"
    by (simp only: compute_relevance_sum)
  then obtain k where k: "k \<in> set FINANCE_KEYWORDS" and "1 \<le> int (count_list ?ws (lower k))"
    using sum_list_pos_ex[of "\<lambda>k. int (count_list ?ws (lower k))" FINANCE_KEYWORDS] by auto
  then have "lower k \<in> set ?ws" by (auto simp: count_list_0_iff intro: ccontr)
  then obtain pre suf where "lower t = pre @ lower k @ suf"
    using findall_words_infix by blast
  then have "map lower_chr t = pre @ map lower_chr k @ suf" by (simp add: lower_def)
  with k show ?thesis unfolding KEYWORD_PATTERN_search_def by (rule search_infix)
qed

lemma compute_relevance_tokens:
  "compute_relevance (PStr t) =
     (\<Sum>k\<leftarrow>FINANCE_KEYWORDS. int (count_list (findall_words (lower t)) k))"
proof -
  have "map (\<lambda>k. int (count_list (findall_words (lower t)) (lower k))) FINANCE_KEYWORDS
          = map (\<lambda>k. int (count_list (findall_words (lower t)) k)) FINANCE_KEYWORDS"
    using keywords_lower by (intro map_cong) auto
  then show ?thesis by (simp only: compute_relevance_sum)
qed

lemma market_cap_matches: "KEYWORD_PATTERN_search ''market cap''"
  unfolding KEYWORD_PATTERN_search_def
  by (rule search_infix[where k = "''market cap''" and pre = "[]" and suf = "[]"])
     (simp_all add: FINANCE_KEYWORDS_def)

lemma market_cap_scores_zero: "compute_relevance (PStr ''market cap'') = 0"
  by (simp add: compute_relevance_tokens lower_def lower_chr_def findall_words_def
        is_word_def isalnum_def FINANCE_KEYWORDS_def del: compute_relevance.simps)

lemma article_of_score:
  assumes "article_of a = Inr (Some r)"
  shows "1 \<le> relevance_score r"
proof -
  from assms obtain t where "relevance_score r = compute_relevance t" "compute_relevance t \<noteq> 0"
    by (auto simp: article_of_def Let_def split: sum.splits if_splits
        simp del: compute_relevance.simps)
  with compute_relevance_nonneg[of t] show ?thesis by simp
qed

lemma mset_sorted_reverse: "mset (sorted_reverse k xs) = mset xs"
  by (simp add: sorted_reverse_def)

lemma set_sorted_reverse: "set (sorted_reverse k xs) = set xs"
  by (simp add: sorted_reverse_def)

lemma sorted_reverse_descending:
  "sorted_wrt (\<lambda>a b. k b \<le> k a) (sorted_reverse k xs)"
proof -
  have "sorted (map k (sort_key k (rev xs)))" by (rule sorted_sort_key)
  then have "sorted_wrt (\<lambda>a b. k a \<le> k b) (sort_key k (rev xs))" by (simp add: sorted_map)
  then show ?thesis by (simp add: sorted_reverse_def sorted_wrt_rev)
qed

lemma sorted_reverse_stable:
  "filter (\<lambda>a. k a = v) (sorted_reverse k xs) = filter (\<lambda>a. k a = v) xs"
proof -
  have "filter (\<lambda>a. k a = v) (sorted_reverse k xs)
          = rev (filter (\<lambda>a. k a = v) (sort_key k (rev xs)))"
    by (simp add: sorted_reverse_def rev_filter)
  also have "\<dots> = rev (filter (\<lambda>a. k a = v) (rev xs))" by (simp only: sort_key_stable)
  also have "\<dots> = filter (\<lambda>a. k a = v) xs" by (simp add: rev_filter)
  finally show ?thesis .
qed

lemma collect_score:
  "collect items acc = Inr rs \<Longrightarrow> \<forall>r\<in>set acc. 1 \<le> relevance_score r \<Longrightarrow>
     \<forall>r\<in>set rs. 1 \<le> relevance_score r"
proof (induction items arbitrary: acc)
  case Nil
  then show ?case by simp
next
  case (Cons a rest)
  show ?case
  proof (cases "article_of a")
    case (Inl e)
    with Cons.prems(1) show ?thesis by simp
  next
    case (Inr opt)
    show ?thesis
    proof (cases opt)
      case None
      with Inr Cons.prems have "collect rest acc = Inr rs" by simp
      from Cons.IH[OF this Cons.prems(2)] show ?thesis .
    next
      case (Some r)
      with Inr Cons.prems have c: "collect rest (acc @ [r]) = Inr rs" by simp
      from Some Inr have "1 \<le> relevance_score r" by (simp add: article_of_score)
      with Cons.prems(2) have "\<forall>x\<in>set (acc @ [r]). 1 \<le> relevance_score x" by simp
      from Cons.IH[OF c this] show ?thesis .
    qed
  qed
qed

lemma fetch_try_score:
  assumes "fetch_try r = Inr rs"
  shows "\<forall>a\<in>set rs. 1 \<le> relevance_score a"
proof -
  from assms have "rs = [] \<or> (\<exists>items. collect items [] = Inr rs)"
    by (simp add: fetch_try_def split: http_outcome.splits if_splits option.splits sum.splits)
      blast
  then show ?thesis using collect_score[of _ "[]" rs] by auto
qed

lemma fetch_score:
  assumes "a \<in> set (fetch_news_from_gdelt get q s e)"
  shows "1 \<le> relevance_score a"
proof (cases "fetch_try (get q s e)")
  case (Inl ex)
  with assms show ?thesis by (simp add: fetch_news_from_gdelt_def)
next
  case (Inr rs)
  with assms fetch_try_score[OF Inr] show ?thesis by (simp add: fetch_news_from_gdelt_def)
qed

lemma tag_score: "a \<in> set (tag c xs) \<Longrightarrow> \<exists>b\<in>set xs. relevance_score a = relevance_score b"
  by (auto simp: tag_def)

lemma tag_category: "a \<in> set (tag c xs) \<Longrightarrow> category a = Some c"
  by (auto simp: tag_def)

lemma length_tag: "length (tag c xs) = length xs"
  by (simp add: tag_def)

lemma length_sorted_reverse: "length (sorted_reverse k xs) = length xs"
  by (simp add: sorted_reverse_def)

lemma ranked_score:
  assumes "a \<in> set (take n (sorted_reverse relevance_score
                      (tag c (fetch_news_from_gdelt get q s e))))"
  shows "1 \<le> relevance_score a"
proof -
  from assms have "a \<in> set (tag c (fetch_news_from_gdelt get q s e))"
    by (auto dest: in_set_takeD simp: set_sorted_reverse)
  then obtain b where "b \<in> set (fetch_news_from_gdelt get q s e)"
    and "relevance_score a = relevance_score b"
    using tag_score by blast
  then show ?thesis using fetch_score[of b get q s e] by simp
qed

lemma company_score: "a \<in> set (company_articles get d) \<Longrightarrow> 1 \<le> relevance_score a"
  unfolding company_articles_def by (rule ranked_score)

lemma sector_score: "a \<in> set (sector_articles get d) \<Longrightarrow> 1 \<le> relevance_score a"
  unfolding sector_articles_def by (rule ranked_score)

lemma main_loop_invariant:
  fixes I :: "state \<Rightarrow> bool"
  assumes "I st" and "\<And>d s. I s \<Longrightarrow> I (day_step get d s)"
  shows "I (main_loop get d st)"
  using assms
proof (induction get d st rule: main_loop.induct)
  case (1 get current_date st)
  show ?case
  proof (cases "current_date \<le> END_DATE")
    case True
    have "I (day_step get current_date st)" using "1.prems"(1) by (rule "1.prems"(2))
    with True have "I (main_loop get (current_date + 1) (day_step get current_date st))"
      by (rule "1.IH") (rule "1.prems"(2))
    with True show ?thesis by (subst main_loop.simps) simp
  next
    case False
    with "1.prems"(1) show ?thesis by (subst main_loop.simps) simp
  qed
qed

lemma day_step_articles:
  "all_articles (day_step get d st)
     = all_articles st @ company_articles get d @ sector_articles get d"
  by (simp add: day_step_def Let_def)

lemma main_loop_scores:
  "\<forall>a\<in>set (all_articles (main_loop get d init_state)). 1 \<le> relevance_score a"
proof (rule main_loop_invariant)
  show "\<forall>a\<in>set (all_articles init_state). 1 \<le> relevance_score a"
    by (simp add: init_state_def)
next
  fix d and s :: state
  assume "\<forall>a\<in>set (all_articles s). 1 \<le> relevance_score a"
  then show "\<forall>a\<in>set (all_articles (day_step get d s)). 1 \<le> relevance_score a"
    by (auto simp: day_step_articles dest: company_score sector_score)
qed

lemma main_loop_totals:
  "total_company (main_loop get d init_state) + total_sector (main_loop get d init_state)
     = length (all_articles (main_loop get d init_state))"
proof (rule main_loop_invariant)
  show "total_company init_state + total_sector init_state = length (all_articles init_state)"
    by (simp add: init_state_def)
next
  fix d and s :: state
  assume "total_company s + total_sector s = length (all_articles s)"
  then show "total_company (day_step get d s) + total_sector (day_step get d s)
               = length (all_articles (day_step get d s))"
    by (simp add: day_step_def Let_def)
qed

lemma keep_first_subset: "set (keep_first seen key xs) \<subseteq> set xs"
  by (induction xs arbitrary: seen) auto

lemma length_keep_first: "length (keep_first seen key xs) \<le> length xs"
  by (induction xs arbitrary: seen) (auto simp: le_SucI)

lemma keep_first_fresh: "\<forall>a\<in>set (keep_first seen key xs). key a \<notin> set seen"
proof (induction xs arbitrary: seen)
  case Nil
  then show ?case by simp
next
  case (Cons x xs)
  show ?case
  proof (cases "key x \<in> set seen")
    case True
    with Cons[of seen] show ?thesis by simp
  next
    case False
    with Cons[of "key x # seen"] show ?thesis by simp
  qed
qed

lemma keep_first_distinct: "distinct (map key (keep_first seen key xs))"
proof (induction xs arbitrary: seen)
  case Nil
  then show ?case by simp
next
  case (Cons x xs)
  have "key x \<notin> key ` set (keep_first (key x # seen) key xs)"
    using keep_first_fresh[of "key x # seen" key xs] by auto
  with Cons show ?case by simp
qed

lemma keep_first_find:
  "find (\<lambda>a. key a = k) (keep_first seen key xs)
     = (if k \<in> set seen then None else find (\<lambda>a. key a = k) xs)"
proof (induction xs arbitrary: seen)
  case Nil
  then show ?case by simp
next
  case (Cons x xs)
  show ?case
  proof (cases "key x \<in> set seen")
    case True
    with Cons[of seen] show ?thesis by auto
  next
    case False
    with Cons[of "key x # seen"] show ?thesis by auto
  qed
qed

lemma find_distinct_key:
  "distinct (map key xs) \<Longrightarrow>
     (find (\<lambda>a. key a = k) xs = Some a) = (a \<in> set xs \<and> key a = k)"
  by (induction xs) (auto simp: image_iff)

lemma find_perm:
  assumes "distinct (map key xs)" and "mset ys = mset xs"
  shows "find (\<lambda>a. key a = k) ys = find (\<lambda>a. key a = k) xs"
proof -
  from assms(2) have "mset (map key ys) = mset (map key xs)" by simp
  with assms(1) have dy: "distinct (map key ys)" by (metis mset_eq_imp_distinct_iff)
  from assms(2) have se: "set ys = set xs" by (rule mset_eq_setD)
  show ?thesis
  proof (cases "find (\<lambda>a. key a = k) xs")
    case None
    then have "\<forall>a\<in>set ys. key a \<noteq> k" using se by (auto simp: find_None_iff)
    then have "find (\<lambda>a. key a = k) ys = None" by (auto simp: find_None_iff)
    with None show ?thesis by simp
  next
    case (Some a)
    then have "a \<in> set ys \<and> key a = k" using find_distinct_key[OF assms(1)] se by blast
    then have "find (\<lambda>a. key a = k) ys = Some a" using find_distinct_key[OF dy] by blast
    with Some show ?thesis by simp
  qed
qed

lemma date_key_le: "date_key x \<le> date_key y \<Longrightarrow> date_le (date x) (date y)"
  by (cases "date x"; cases "date y") (simp_all add: date_key_def date_le_def)

lemma sort_values_sorted: "sorted_wrt (\<lambda>x y. date_le (date x) (date y)) (sort_values df)"
proof -
  have "sorted (map date_key (sort_key date_key df))" by (rule sorted_sort_key)
  then have "sorted_wrt (\<lambda>x y. date_key x \<le> date_key y) (sort_values df)"
    by (simp add: sorted_map sort_values_def)
  then show ?thesis by (rule sorted_wrt_mono_rel[rotated]) (simp add: date_key_le)
qed

lemma mset_sort_values: "mset (sort_values df) = mset df"
  by (simp add: sort_values_def)

lemma main_tail_saved:
  assumes "main_tail st = Saved rows n c s"
  shows "rows = sort_values (drop_duplicates (all_articles st))"
    and "n = length rows" and "c = total_company st" and "s = total_sector st"
    and "all_articles st \<noteq> []"
  using assms by (auto simp: main_tail_def Let_def split: if_splits)

lemma ranked_take_top:
  fixes k :: "'a \<Rightarrow> int"
  assumes "a \<in> set (take n (sorted_reverse k xs))" and "b \<in> set (drop n (sorted_reverse k xs))"
  shows "k b \<le> k a"
proof -
  have "sorted_wrt (\<lambda>a b. k b \<le> k a) (take n (sorted_reverse k xs) @ drop n (sorted_reverse k xs))"
    using sorted_reverse_descending[of k xs] by simp
  with assms show ?thesis unfolding sorted_wrt_append by blast
qed

lemma ranked_take_descending:
  fixes k :: "'a \<Rightarrow> int"
  shows "sorted_wrt (\<lambda>a b. k b \<le> k a) (take n (sorted_reverse k xs))"
proof -
  have "sorted_wrt (\<lambda>a b. k b \<le> k a) (take n (sorted_reverse k xs) @ drop n (sorted_reverse k xs))"
    using sorted_reverse_descending[of k xs] by simp
  then show ?thesis unfolding sorted_wrt_append by blast
qed

lemma ranked_take_ties:
  fixes k :: "'a \<Rightarrow> int"
  shows "filter (\<lambda>a. k a = v) xs
           = filter (\<lambda>a. k a = v) (take n (sorted_reverse k xs))
             @ filter (\<lambda>a. k a = v) (drop n (sorted_reverse k xs))"
proof -
  have "filter (\<lambda>a. k a = v) xs = filter (\<lambda>a. k a = v) (sorted_reverse k xs)"
    by (simp only: sorted_reverse_stable)
  also have "\<dots> = filter (\<lambda>a. k a = v)
                      (take n (sorted_reverse k xs) @ drop n (sorted_reverse k xs))"
    by simp
  finally show ?thesis by (simp only: filter_append)
qed

lemma ranked_take_mset:
  "mset (take n (sorted_reverse k xs) @ drop n (sorted_reverse k xs)) = mset xs"
  by (simp add: mset_sorted_reverse)




lemma day_step_nothing:
  assumes "fetch_news_from_gdelt get COMPANY_QUERY d (d + 1) = []"
    and "fetch_news_from_gdelt get SECTOR_QUERY d (d + 1) = []"
  shows "day_step get d st = st"
  using assms
  by (simp add: day_step_def company_articles_def sector_articles_def tag_def sorted_reverse_def)

lemma length_keep_first_eq:
  "length (keep_first seen key xs) = length xs \<Longrightarrow> keep_first seen key xs = xs"
proof (induction xs arbitrary: seen)
  case Nil
  then show ?case by simp
next
  case (Cons x xs)
  show ?case
  proof (cases "key x \<in> set seen")
    case True
    with Cons.prems have "length (keep_first seen key xs) = Suc (length xs)" by simp
    with length_keep_first[of seen key xs] show ?thesis by simp
  next
    case False
    with Cons show ?thesis by simp
  qed
qed

lemma length_drop_duplicates: "length (drop_duplicates df) \<le> length df"
  by (simp add: drop_duplicates_def length_keep_first)

lemma length_drop_duplicates_less:
  assumes "drop_duplicates df \<noteq> df"
  shows "length (drop_duplicates df) < length df"
proof -
  from assms have "length (drop_duplicates df) \<noteq> length df"
    using length_keep_first_eq[of "[]" subset_key df] by (auto simp: drop_duplicates_def)
  with length_drop_duplicates[of df] show ?thesis by linarith
qed

lemma length_sort_values: "length (sort_values df) = length df"
  by (simp add: sort_values_def)

lemma set_sort_values: "set (sort_values df) = set df"
  by (simp add: sort_values_def)

lemma drop_duplicates_subset: "set (drop_duplicates df) \<subseteq> set df"
  by (simp add: drop_duplicates_def keep_first_subset)

lemma tag_origin: "a \<in> set (tag c xs) \<Longrightarrow> \<exists>b\<in>set xs. a = b\<lparr>category := Some c\<rparr>"
  by (auto simp: tag_def)

lemma ranked_origin:
  assumes "a \<in> set (take n (sorted_reverse relevance_score (tag c xs)))"
  shows "\<exists>b\<in>set xs. a = b\<lparr>category := Some c\<rparr>"
proof -
  from assms have "a \<in> set (tag c xs)"
    by (auto dest: in_set_takeD simp: set_sorted_reverse)
  then show ?thesis by (rule tag_origin)
qed

lemma company_origin: "a \<in> set (company_articles get d) \<Longrightarrow> from_fetch get a"
  unfolding company_articles_def from_fetch_def by (blast dest: ranked_origin)

lemma sector_origin: "a \<in> set (sector_articles get d) \<Longrightarrow> from_fetch get a"
  unfolding sector_articles_def from_fetch_def by (blast dest: ranked_origin)

lemma main_loop_origin:
  "\<forall>a\<in>set (all_articles (main_loop get d init_state)). from_fetch get a"
proof (rule main_loop_invariant)
  show "\<forall>a\<in>set (all_articles init_state). from_fetch get a"
    by (simp add: init_state_def)
next
  fix d and s :: state
  assume "\<forall>a\<in>set (all_articles s). from_fetch get a"
  then show "\<forall>a\<in>set (all_articles (day_step get d s)). from_fetch get a"
    by (auto simp: day_step_articles dest: company_origin sector_origin)
qed

lemma ranked_top_ranked:
  "top_ranked n c fetched (take n (sorted_reverse relevance_score (tag c fetched)))"
proof -
  let ?S = "sorted_reverse relevance_score (tag c fetched)"
  have 1: "length (take n ?S) \<le> n" by simp
  have 2: "length (take n ?S) = min n (length fetched)"
    by (simp add: length_sorted_reverse length_tag min.commute)
  have 3: "\<forall>a\<in>set (take n ?S). category a = Some c"
    by (auto dest!: in_set_takeD simp: set_sorted_reverse tag_category)
  have 4: "sorted_wrt (\<lambda>a b. relevance_score b \<le> relevance_score a) (take n ?S)"
    by (rule ranked_take_descending)
  have "mset (take n ?S @ drop n ?S) = mset (tag c fetched)"
    by (rule ranked_take_mset)
  moreover have "\<forall>a\<in>set (take n ?S). \<forall>b\<in>set (drop n ?S). relevance_score b \<le> relevance_score a"
    using ranked_take_top[of _ n relevance_score "tag c fetched"] by blast
  ultimately have 5: "\<exists>rest. mset (take n ?S @ rest) = mset (tag c fetched)
      \<and> (\<forall>a\<in>set (take n ?S). \<forall>b\<in>set rest. relevance_score b \<le> relevance_score a)"
    by blast
  have 6: "\<forall>v. \<exists>later. filter (\<lambda>a. relevance_score a = v) (tag c fetched)
                          = filter (\<lambda>a. relevance_score a = v) (take n ?S) @ later"
    using ranked_take_ties[of relevance_score _ "tag c fetched" n] by blast
  from 1 2 3 4 5 6 show ?thesis unfolding top_ranked_def by blast
qed

lemma main_loop_step:
  "d \<le> END_DATE \<Longrightarrow> main_loop get d st = main_loop get (d + 1) (day_step get d st)"
  by (subst main_loop.simps) simp

lemma main_loop_done: "\<not> d \<le> END_DATE \<Longrightarrow> main_loop get d st = st"
  by (subst main_loop.simps) simp

lemma sorted_dates_nth:
  assumes "sorted_wrt (\<lambda>x y. date_le (date x) (date y)) rows"
    and "i < j" and "j < length rows"
    and "date (rows ! i) = PStr a" and "date (rows ! j) = PStr b"
  shows "a \<le> b"
proof -
  from assms(1-3) have "date_le (date (rows ! i)) (date (rows ! j))"
    by (simp add: sorted_wrt_iff_nth_less)
  with assms(4,5) show ?thesis by (simp add: date_le_def)
qed

lemma score_bank: "compute_relevance (PStr ''bank'') = 1"
  by (simp add: compute_relevance_tokens lower_def lower_chr_def findall_words_def
        is_word_def isalnum_def FINANCE_KEYWORDS_def del: compute_relevance.simps)

lemma score_bank_bank: "compute_relevance (PStr ''bank bank'') = 2"
  by (simp add: compute_relevance_tokens lower_def lower_chr_def findall_words_def
        is_word_def isalnum_def FINANCE_KEYWORDS_def del: compute_relevance.simps)

lemma search_bank: "KEYWORD_PATTERN_search ''bank''"
  unfolding KEYWORD_PATTERN_search_def
  by (rule search_infix[where k = "''bank''" and pre = "[]" and suf = "[]"])
     (simp_all add: FINANCE_KEYWORDS_def)

lemma search_bank_bank: "KEYWORD_PATTERN_search ''bank bank''"
  unfolding KEYWORD_PATTERN_search_def
  by (rule search_infix[where k = "''bank''" and pre = "[]" and suf = "'' bank''"])
     (simp_all add: FINANCE_KEYWORDS_def lower_chr_def)

lemma queries_differ: "SECTOR_QUERY \<noteq> COMPANY_QUERY"
  by (simp add: SECTOR_QUERY_def COMPANY_QUERY_def)

lemma example_fetch_company:
  "fetch_news_from_gdelt example_provider COMPANY_QUERY d e =
     [example_record ''bank'' ''u1'' ''20251028T9'' 1 None,
      example_record ''bank bank'' ''u2'' ''20251028T10'' 2 None,
      example_record ''bank'' ''u1'' ''20251028T12'' 1 None]"
  by (simp add: fetch_news_from_gdelt_def fetch_try_def example_provider_def example_item_def
        example_record_def article_of_def field_def Let_def
        score_bank score_bank_bank search_bank search_bank_bank
        market_cap_matches market_cap_scores_zero del: compute_relevance.simps)

lemma example_fetch_sector: "fetch_news_from_gdelt example_provider SECTOR_QUERY d e = []"
  by (simp add: fetch_news_from_gdelt_def fetch_try_def example_provider_def queries_differ)

lemma example_company:
  "company_articles example_provider d =
     [example_record ''bank bank'' ''u2'' ''20251028T10'' 2 (Some ''company''),
      example_record ''bank'' ''u1'' ''20251028T9'' 1 (Some ''company''),
      example_record ''bank'' ''u1'' ''20251028T12'' 1 (Some ''company'')]"
  by (simp add: company_articles_def example_fetch_company tag_def sorted_reverse_def
        example_record_def)

lemma example_sector: "sector_articles example_provider d = []"
  by (simp add: sector_articles_def example_fetch_sector tag_def sorted_reverse_def)

lemma example_loop:
  "main_loop example_provider END_DATE init_state =
     \<lparr>all_articles =
        [example_record ''bank bank'' ''u2'' ''20251028T10'' 2 (Some ''company''),
         example_record ''bank'' ''u1'' ''20251028T9'' 1 (Some ''company''),
         example_record ''bank'' ''u1'' ''20251028T12'' 1 (Some ''company'')],
      total_company = 3, total_sector = 0\<rparr>"
  by (simp add: main_loop_step main_loop_done day_step_def example_company example_sector
        init_state_def)

lemma example_main:
  "main_from example_provider END_DATE =
     Saved [example_record ''bank bank'' ''u2'' ''20251028T10'' 2 (Some ''company''),
            example_record ''bank'' ''u1'' ''20251028T9'' 1 (Some ''company'')] 2 3 0"
  unfolding main_from_def example_loop
  by (simp add: main_tail_def text_frame_def drop_duplicates_def subset_key_def
        sort_values_def date_key_def example_record_def)

lemma example_tail:
  "main_tail example_state =
     Saved [example_record ''bank bank'' ''u2'' ''20251028T10'' 2 (Some ''company''),
            example_record ''bank'' ''u1'' ''20251028T9'' 1 (Some ''company'')] 2 2 1"
  by (simp add: main_tail_def example_state_def text_frame_def drop_duplicates_def subset_key_def
        sort_values_def date_key_def example_record_def)

lemma score_eval:
  "compute_relevance (PStr ''hdfc bank'') = 2"
  by (simp add: compute_relevance_tokens lower_def lower_chr_def findall_words_def
        is_word_def isalnum_def FINANCE_KEYWORDS_def del: compute_relevance.simps)






section \<open>The claims\<close>

text \<open>
  C1. Whenever the program writes its file, no two rows share both title and url; the
  key of deduplication is exactly the pair (title, url); and for every such pair the row
  written is the first record of the accumulator with that pair, whatever the scores of
  the later ones.
\<close>

theorem dedup_on_title_url_keeps_first:
  assumes "main_tail st = Saved rows n c s"
  shows "distinct (map subset_key rows)
       \<and> (\<forall>a. subset_key a = (title a, url a))
       \<and> (\<forall>k. find (\<lambda>a. subset_key a = k) rows
                = find (\<lambda>a. subset_key a = k) (all_articles st))"
proof -
  let ?df = "drop_duplicates (all_articles st)"
  from assms have rows: "rows = sort_values ?df" by (rule main_tail_saved(1))
  have d: "distinct (map subset_key ?df)"
    by (simp add: drop_duplicates_def keep_first_distinct)
  have m: "mset rows = mset ?df" by (simp add: rows mset_sort_values)
  then have "mset (map subset_key rows) = mset (map subset_key ?df)" by simp
  with d have 1: "distinct (map subset_key rows)" by (metis mset_eq_imp_distinct_iff)
  have 3: "find (\<lambda>a. subset_key a = k) rows = find (\<lambda>a. subset_key a = k) (all_articles st)" for k
  proof -
    have "find (\<lambda>a. subset_key a = k) rows = find (\<lambda>a. subset_key a = k) ?df"
      using d m by (rule find_perm)
    also have "\<dots> = find (\<lambda>a. subset_key a = k) (all_articles st)"
      by (simp add: drop_duplicates_def keep_first_find)
    finally show ?thesis .
  qed
  from 1 3 show ?thesis by (simp add: subset_key_def)
qed

theorem dedup_on_title_url_keeps_first_witness:
  "main_tail example_state =
     Saved [example_record ''bank bank'' ''u2'' ''20251028T10'' 2 (Some ''company''),
            example_record ''bank'' ''u1'' ''20251028T9'' 1 (Some ''company'')] 2 2 1
   \<and> find (\<lambda>a. subset_key a = (PStr ''bank'', PStr ''u1''))
        [example_record ''bank bank'' ''u2'' ''20251028T10'' 2 (Some ''company''),
         example_record ''bank'' ''u1'' ''20251028T9'' 1 (Some ''company'')]
       = Some (example_record ''bank'' ''u1'' ''20251028T9'' 1 (Some ''company''))
   \<and> find (\<lambda>a. subset_key a = (PStr ''bank'', PStr ''u1'')) (all_articles example_state)
       = Some (example_record ''bank'' ''u1'' ''20251028T9'' 1 (Some ''company''))"
proof -
  have first: "find (\<lambda>a. subset_key a = (PStr ''bank'', PStr ''u1'')) (all_articles example_state)
       = Some (example_record ''bank'' ''u1'' ''20251028T9'' 1 (Some ''company''))"
    by (simp add: example_state_def example_record_def subset_key_def)
  from dedup_on_title_url_keeps_first[OF example_tail]
  have "find (\<lambda>a. subset_key a = (PStr ''bank'', PStr ''u1''))
          [example_record ''bank bank'' ''u2'' ''20251028T10'' 2 (Some ''company''),
           example_record ''bank'' ''u1'' ''20251028T9'' 1 (Some ''company'')]
        = find (\<lambda>a. subset_key a = (PStr ''bank'', PStr ''u1'')) (all_articles example_state)"
    by blast
  then have kept: "find (\<lambda>a. subset_key a = (PStr ''bank'', PStr ''u1''))
          [example_record ''bank bank'' ''u2'' ''20251028T10'' 2 (Some ''company''),
           example_record ''bank'' ''u1'' ''20251028T9'' 1 (Some ''company'')]
       = Some (example_record ''bank'' ''u1'' ''20251028T9'' 1 (Some ''company''))"
    using first by (rule trans)
  from example_tail kept first show ?thesis by (intro conjI)
qed

text \<open>
  C2. Every record the fetcher returns has a score of at least 1, and so has every row
  of the final output: each row is a record returned by some fetch, changed in its
  category tag only.
\<close>

theorem retained_scores_at_least_one:
  "(\<forall>a\<in>set (fetch_news_from_gdelt get q s e). 1 \<le> relevance_score a)
   \<and> (\<forall>rows n c t. main_from get d = Saved rows n c t \<longrightarrow>
         (\<forall>a\<in>set rows. 1 \<le> relevance_score a \<and> from_fetch get a))"
proof (intro conjI allI impI ballI)
  fix a assume "a \<in> set (fetch_news_from_gdelt get q s e)"
  then show "1 \<le> relevance_score a" by (rule fetch_score)
next
  fix rows n c t a
  assume saved: "main_from get d = Saved rows n c t" and a: "a \<in> set rows"
  from saved have "rows = sort_values (drop_duplicates (all_articles (main_loop get d init_state)))"
    unfolding main_from_def by (rule main_tail_saved(1))
  with a have in_acc: "a \<in> set (all_articles (main_loop get d init_state))"
    using drop_duplicates_subset by (auto simp: set_sort_values)
  with main_loop_scores show "1 \<le> relevance_score a" by blast
  from in_acc main_loop_origin show "from_fetch get a" by blast
qed

theorem retained_scores_at_least_one_witness:
  "main_from example_provider END_DATE =
     Saved [example_record ''bank bank'' ''u2'' ''20251028T10'' 2 (Some ''company''),
            example_record ''bank'' ''u1'' ''20251028T9'' 1 (Some ''company'')] 2 3 0
   \<and> 1 \<le> relevance_score (example_record ''bank'' ''u1'' ''20251028T9'' 1 (Some ''company''))
   \<and> example_record ''bank'' ''u1'' ''20251028T9'' 1 None
        \<in> set (fetch_news_from_gdelt example_provider COMPANY_QUERY END_DATE (END_DATE + 1))
   \<and> 1 \<le> relevance_score (example_record ''bank'' ''u1'' ''20251028T9'' 1 None)"
proof -
  have m: "example_record ''bank'' ''u1'' ''20251028T9'' 1 None
        \<in> set (fetch_news_from_gdelt example_provider COMPANY_QUERY END_DATE (END_DATE + 1))"
    by (simp add: example_fetch_company)
  from retained_scores_at_least_one[of example_provider COMPANY_QUERY END_DATE "END_DATE + 1" END_DATE]
    m example_main
  show ?thesis by simp
qed

text \<open>
  C3. On every day the loop appends the company list followed by the sector list. The
  company list holds at most 15 records tagged \<open>company\<close>, the sector list at most 30
  tagged \<open>sector\<close>; each is in descending score order, holds the highest-scoring records
  of that day's fetch, and keeps records of equal score in the order of the fetch.
\<close>

theorem day_appends_top_ranked:
  "top_ranked 15 ''company'' (fetch_news_from_gdelt get COMPANY_QUERY d (d + 1))
      (company_articles get d)
   \<and> top_ranked 30 ''sector'' (fetch_news_from_gdelt get SECTOR_QUERY d (d + 1))
      (sector_articles get d)
   \<and> all_articles (day_step get d st)
        = all_articles st @ company_articles get d @ sector_articles get d
   \<and> (d \<le> END_DATE \<longrightarrow> main_loop get d st = main_loop get (d + 1) (day_step get d st))"
  unfolding company_articles_def sector_articles_def
  using ranked_top_ranked[of 15 "''company''"] ranked_top_ranked[of 30 "''sector''"]
    day_step_articles[of get d st, unfolded company_articles_def sector_articles_def]
    main_loop_step[of d get st]
  by blast

theorem day_appends_top_ranked_witness:
  "END_DATE \<le> END_DATE
   \<and> company_articles example_provider END_DATE =
       [example_record ''bank bank'' ''u2'' ''20251028T10'' 2 (Some ''company''),
        example_record ''bank'' ''u1'' ''20251028T9'' 1 (Some ''company''),
        example_record ''bank'' ''u1'' ''20251028T12'' 1 (Some ''company'')]
   \<and> top_ranked 15 ''company''
        (fetch_news_from_gdelt example_provider COMPANY_QUERY END_DATE (END_DATE + 1))
        (company_articles example_provider END_DATE)
   \<and> main_loop example_provider END_DATE init_state
       = main_loop example_provider (END_DATE + 1) (day_step example_provider END_DATE init_state)"
  using day_appends_top_ranked[of example_provider END_DATE init_state] example_company
  by simp



text \<open>
  C5. The rows written are in non-decreasing order of the raw date string under string
  comparison (rows without a date come last): for rows at positions \<open>i < j\<close> with date
  strings \<open>a\<close> and \<open>b\<close>, \<open>a \<le> b\<close> as strings.
\<close>

theorem output_ordered_by_date_string:
  assumes "main_tail st = Saved rows n c s"
  shows "sorted_wrt (\<lambda>x y. date_le (date x) (date y)) rows
       \<and> (\<forall>i j a b. i < j \<and> j < length rows
             \<and> date (rows ! i) = PStr a \<and> date (rows ! j) = PStr b \<longrightarrow> a \<le> b)"
proof -
  from assms have "rows = sort_values (drop_duplicates (all_articles st))"
    by (rule main_tail_saved(1))
  then have s: "sorted_wrt (\<lambda>x y. date_le (date x) (date y)) rows"
    by (simp add: sort_values_sorted)
  then show ?thesis using sorted_dates_nth[OF s] by blast
qed

theorem output_ordered_by_date_string_witness:
  "main_tail example_state =
     Saved [example_record ''bank bank'' ''u2'' ''20251028T10'' 2 (Some ''company''),
            example_record ''bank'' ''u1'' ''20251028T9'' 1 (Some ''company'')] 2 2 1
   \<and> sorted_wrt (\<lambda>x y. date_le (date x) (date y))
        [example_record ''bank bank'' ''u2'' ''20251028T10'' 2 (Some ''company''),
         example_record ''bank'' ''u1'' ''20251028T9'' 1 (Some ''company'')]
   \<and> ''20251028T10'' \<le> ''20251028T9''"
proof -
  let ?rows = "[example_record ''bank bank'' ''u2'' ''20251028T10'' 2 (Some ''company''),
                example_record ''bank'' ''u1'' ''20251028T9'' 1 (Some ''company'')]"
  note t = output_ordered_by_date_string[OF example_tail]
  have i: "(0::nat) < 1 \<and> 1 < length ?rows
      \<and> date (?rows ! 0) = PStr ''20251028T10'' \<and> date (?rows ! 1) = PStr ''20251028T9''"
    by (simp add: example_record_def)
  from t have "\<forall>i j a b. i < j \<and> j < length ?rows
             \<and> date (?rows ! i) = PStr a \<and> date (?rows ! j) = PStr b \<longrightarrow> a \<le> b"
    by (rule conjunct2)
  with i have le: "''20251028T10'' \<le> ''20251028T9''" by blast
  from t have srt: "sorted_wrt (\<lambda>x y. date_le (date x) (date y)) ?rows" by (rule conjunct1)
  from example_tail srt le show ?thesis by (intro conjI)
qed

text \<open>
  C6. The keyword filter is strictly more permissive than a nonzero score: a text with a
  score of at least 1 is matched by \<open>KEYWORD_PATTERN\<close>, and some matched text (the
  multi-word keyword \<open>market cap\<close> alone) has the score 0.
\<close>

theorem filter_more_permissive_than_score:
  "(\<forall>t. 1 \<le> compute_relevance (PStr t) \<longrightarrow> KEYWORD_PATTERN_search t)
   \<and> (\<exists>t. KEYWORD_PATTERN_search t \<and> compute_relevance (PStr t) = 0)"
  using scored_implies_search market_cap_matches market_cap_scores_zero by blast

theorem filter_more_permissive_than_score_witness:
  "1 \<le> compute_relevance (PStr ''hdfc bank'') \<and> KEYWORD_PATTERN_search ''hdfc bank''"
proof -
  have "1 \<le> compute_relevance (PStr ''hdfc bank'')" by (simp only: score_eval)
  with filter_more_permissive_than_score show ?thesis by blast
qed

text \<open>
  C7. The score of a text is the sum, over the keywords without a space only, of the
  number of times the keyword occurs among the word tokens of the lower-cased text; a
  keyword with a space in it is never a token and adds 0.
\<close>

theorem multiword_keywords_never_score:
  "compute_relevance (PStr t)
     = (\<Sum>k\<leftarrow>filter (\<lambda>k. CHR '' '' \<notin> set k) FINANCE_KEYWORDS.
          int (count_list (findall_words (lower t)) k))
   \<and> (\<forall>k\<in>set FINANCE_KEYWORDS. CHR '' '' \<in> set k \<longrightarrow>
          dict_get (Counter (findall_words (lower t))) (lower k) 0 = 0)"
proof
  show "compute_relevance (PStr t)
     = (\<Sum>k\<leftarrow>filter (\<lambda>k. CHR '' '' \<notin> set k) FINANCE_KEYWORDS.
          int (count_list (findall_words (lower t)) k))"
    unfolding compute_relevance_tokens
    by (rule sum_list_filter_zero) (simp add: count_spaced_token)
next
  show "\<forall>k\<in>set FINANCE_KEYWORDS. CHR '' '' \<in> set k \<longrightarrow>
          dict_get (Counter (findall_words (lower t))) (lower k) 0 = 0"
  proof (intro ballI impI)
    fix k assume "k \<in> set FINANCE_KEYWORDS" and sp: "CHR '' '' \<in> set k"
    then have "lower k = k" using keywords_lower by blast
    with sp show "dict_get (Counter (findall_words (lower t))) (lower k) 0 = 0"
      by (simp add: counter_get count_spaced_token)
  qed
qed

theorem multiword_keywords_never_score_witness:
  "''hdfc bank'' \<in> set FINANCE_KEYWORDS \<and> CHR '' '' \<in> set ''hdfc bank''
   \<and> dict_get (Counter (findall_words (lower ''hdfc bank''))) (lower ''hdfc bank'') 0 = 0
   \<and> compute_relevance (PStr ''hdfc bank'') = 2"
proof -
  have a: "''hdfc bank'' \<in> set FINANCE_KEYWORDS" by (simp add: FINANCE_KEYWORDS_def)
  have b: "CHR '' '' \<in> set ''hdfc bank''" by simp
  from multiword_keywords_never_score[of "''hdfc bank''"] a b
  have "dict_get (Counter (findall_words (lower ''hdfc bank''))) (lower ''hdfc bank'') 0 = 0"
    by blast
  with a b score_eval show ?thesis by blast
qed

text \<open>
  C8. The scorer is total and never negative: it returns an integer \<open>\<ge> 0\<close> on every
  value, and exactly 0 on every value that is not a str (\<open>None\<close>, an int, a list, a dict).
\<close>

theorem compute_relevance_total_nonneg:
  "0 \<le> compute_relevance v
   \<and> compute_relevance PNone = 0
   \<and> compute_relevance (PInt n) = 0
   \<and> compute_relevance (PList xs) = 0
   \<and> compute_relevance (PDict kvs) = 0"
  using compute_relevance_nonneg[of v] by simp

text \<open>
  C9. With an empty accumulator the program reports that no articles were fetched and
  returns without writing a file; a file is written only when the accumulator is not
  empty.
\<close>

theorem empty_accumulator_writes_no_file:
  "(all_articles st = [] \<longrightarrow> main_tail st = NoArticles \<and> written (main_tail st) = None)
   \<and> (\<forall>rows. written (main_tail st) = Some rows \<longrightarrow> all_articles st \<noteq> [])
   \<and> (all_articles (main_loop get d init_state) = [] \<longrightarrow> main_from get d = NoArticles)"
  by (auto simp: main_tail_def main_from_def)

theorem empty_accumulator_writes_no_file_witness:
  "all_articles (main_loop failing_provider END_DATE init_state) = []
   \<and> main_from failing_provider END_DATE = NoArticles
   \<and> written (main_tail example_state)
        = Some [example_record ''bank bank'' ''u2'' ''20251028T10'' 2 (Some ''company''),
                example_record ''bank'' ''u1'' ''20251028T9'' 1 (Some ''company'')]
   \<and> all_articles example_state \<noteq> []"
proof -
  have fc: "fetch_news_from_gdelt failing_provider COMPANY_QUERY END_DATE (END_DATE + 1) = []"
    by (simp add: fetch_news_from_gdelt_def fetch_try_def failing_provider_def)
  have fs: "fetch_news_from_gdelt failing_provider SECTOR_QUERY END_DATE (END_DATE + 1) = []"
    by (simp add: fetch_news_from_gdelt_def fetch_try_def failing_provider_def queries_differ)
  have e: "all_articles (main_loop failing_provider END_DATE init_state) = []"
    by (simp add: main_loop_step main_loop_done day_step_nothing[OF fc fs] init_state_def)
  have w: "written (main_tail example_state)
        = Some [example_record ''bank bank'' ''u2'' ''20251028T10'' 2 (Some ''company''),
                example_record ''bank'' ''u1'' ''20251028T9'' 1 (Some ''company'')]"
    by (simp add: example_tail)
  from empty_accumulator_writes_no_file[of example_state failing_provider END_DATE] e
  have na: "main_from failing_provider END_DATE = NoArticles" by blast
  from empty_accumulator_writes_no_file[of example_state failing_provider END_DATE] w
  have ne: "all_articles example_state \<noteq> []" by blast
  from e na w ne show ?thesis by (intro conjI)
qed

text \<open>
  C10. The two category counts of the summary are taken before deduplication: their sum
  is the length of the accumulator, so it is at least the number of rows saved, and
  strictly greater whenever deduplication removes a record.
\<close>

theorem summary_counts_precede_dedup:
  "total_company (main_loop get d init_state) + total_sector (main_loop get d init_state)
     = length (all_articles (main_loop get d init_state))
   \<and> (\<forall>rows n c s. main_from get d = Saved rows n c s \<longrightarrow>
         n = length rows
         \<and> c = total_company (main_loop get d init_state)
         \<and> s = total_sector (main_loop get d init_state)
         \<and> n \<le> c + s
         \<and> (drop_duplicates (all_articles (main_loop get d init_state))
               \<noteq> all_articles (main_loop get d init_state) \<longrightarrow> n < c + s))"
proof (intro conjI allI impI)
  let ?st = "main_loop get d init_state"
  show tot: "total_company ?st + total_sector ?st = length (all_articles ?st)"
    by (rule main_loop_totals)
  fix rows n c s
  assume saved: "main_from get d = Saved rows n c s"
  then have mt: "main_tail ?st = Saved rows n c s" by (simp add: main_from_def)
  from mt show n: "n = length rows" by (rule main_tail_saved(2))
  from mt show c: "c = total_company ?st" by (rule main_tail_saved(3))
  from mt show s: "s = total_sector ?st" by (rule main_tail_saved(4))
  from mt have rows: "rows = sort_values (drop_duplicates (all_articles ?st))"
    by (rule main_tail_saved(1))
  then have len: "n = length (drop_duplicates (all_articles ?st))"
    using n by (simp add: length_sort_values)
  with tot c s length_drop_duplicates[of "all_articles ?st"] show "n \<le> c + s" by simp
  assume "drop_duplicates (all_articles ?st) \<noteq> all_articles ?st"
  then have "length (drop_duplicates (all_articles ?st)) < length (all_articles ?st)"
    by (rule length_drop_duplicates_less)
  with len tot c s show "n < c + s" by simp
qed

theorem summary_counts_precede_dedup_witness:
  "main_from example_provider END_DATE =
     Saved [example_record ''bank bank'' ''u2'' ''20251028T10'' 2 (Some ''company''),
            example_record ''bank'' ''u1'' ''20251028T9'' 1 (Some ''company'')] 2 3 0
   \<and> total_company (main_loop example_provider END_DATE init_state) = 3
   \<and> total_sector (main_loop example_provider END_DATE init_state) = 0
   \<and> length (all_articles (main_loop example_provider END_DATE init_state)) = 3
   \<and> (2::nat) \<le> 3 + 0"
proof -
  note t = summary_counts_precede_dedup[of example_provider END_DATE]
  from t example_main
  have "total_company (main_loop example_provider END_DATE init_state) = 3
      \<and> total_sector (main_loop example_provider END_DATE init_state) = 0
      \<and> (2::nat) \<le> 3 + 0"
    by metis
  moreover from t
  have "total_company (main_loop example_provider END_DATE init_state)
          + total_sector (main_loop example_provider END_DATE init_state)
        = length (all_articles (main_loop example_provider END_DATE init_state))"
    by (rule conjunct1)
  ultimately show ?thesis using example_main by simp
qed

end
